theory Spec2Isabelle
  imports Main "HOL-Library.Stream" "HOL-Library.Word"
begin

section \<open>The environment of \<^verbatim>\<open>src/daemon/redis.ts\<close>\<close>

text \<open>
  The module talks to a Redis server through \<^verbatim>\<open>redisClient\<close> and \<^verbatim>\<open>redlock\<close>, reads
  the clock with \<^verbatim>\<open>Date.now()\<close> and uses the timers of the runtime. None of that is code
  of the module, so it is the environment here: every awaited call pops its reply from a
  stream of replies of its own kind, chosen freely by the environment (an error reply is
  the rejected promise, the exception \<^verbatim>\<open>await\<close> throws), and a stream of latencies says
  how long each awaited call takes. What the module does is its return value together
  with the commands it issues, in order, in \<open>trace\<close>; each event records the command, the
  time it was issued at and whether the call returned (\<open>ok\<close>) or was rejected.

  Latencies are natural numbers: the clock does not run backwards, and a delay of \<open>ms\<close>
  takes \<open>ms\<close> at least. A timer fires between two calls of the module (\<open>fire\<close>); a tick that
  would run while another call of the module is suspended in an \<^verbatim>\<open>await\<close> is not
  interleaved with it.

  JavaScript numbers are modelled as exact integers. The module only handles millisecond
  counts: a clock reading is a \<^verbatim>\<open>Date\<close> value, below \<open>2^53\<close>, where the arithmetic of doubles
  is exact, and a timestamp too large for a double to hold exactly is so far from any clock
  reading that its comparison with \<open>10000\<close> comes out the same.
\<close>

datatype error = StoreError | LockError

type_synonym 'a outcome = "error + 'a"

text \<open>The \<^verbatim>\<open>Lock\<close> object \<^verbatim>\<open>redlock.lock\<close> resolves to: the resource and its random value.\<close>

datatype lock = Lock (lock_resource: string) (lock_value: nat)

datatype command =
    Exists string
  | Pttl string
  | Get string
  | Set string string
  | Pexpire string int
  | Del string
  | RedlockLock string int
  | Extend lock int
  | Unlock lock
  | Delay int
  | SetInterval nat int
  | ClearInterval nat

record event =
  at :: int
  cmd :: command
  ok :: bool

text \<open>
  A JavaScript string value, as \<^verbatim>\<open>getAsync\<close> resolves to it: its UTF-16 code units.
  Keys, and the values the module writes, are only built and passed on; they stay \<open>string\<close>s.
\<close>

type_synonym js_string = "16 word list"

text \<open>The one closure given to \<^verbatim>\<open>setInterval\<close>, as data: the lock and the heartbeat key it captures.\<close>

datatype callback = HeartbeatTick lock string

datatype timer = Interval (timer_callback: callback) (timer_period: int)

record world =
  now :: int
  latency :: "nat stream"
  exists_replies :: "int outcome stream"
  pttl_replies :: "int outcome stream"
  get_replies :: "js_string option outcome stream"
  set_replies :: "unit outcome stream"
  pexpire_replies :: "unit outcome stream"
  del_replies :: "unit outcome stream"
  lock_replies :: "nat outcome stream"
  extend_replies :: "unit outcome stream"
  unlock_replies :: "unit outcome stream"
  trace :: "event list"
  timers :: "nat \<rightharpoonup> timer"
  next_timer :: nat

text \<open>An awaited call takes the next latency and is logged with the time it was issued at.\<close>

definition elapse :: "command \<Rightarrow> bool \<Rightarrow> world \<Rightarrow> world" where
  "elapse c success w =
     w\<lparr>now := now w + int (shd (latency w)),
       latency := stl (latency w),
       trace := trace w @ [\<lparr>at = now w, cmd = c, ok = success\<rparr>]\<rparr>"

definition existsAsync :: "string \<Rightarrow> world \<Rightarrow> int outcome \<times> world" where
  "existsAsync key w =
     (let r = shd (exists_replies w)
      in (r, elapse (Exists key) (\<not> isl r) (w\<lparr>exists_replies := stl (exists_replies w)\<rparr>)))"

definition pttlAsync :: "string \<Rightarrow> world \<Rightarrow> int outcome \<times> world" where
  "pttlAsync key w =
     (let r = shd (pttl_replies w)
      in (r, elapse (Pttl key) (\<not> isl r) (w\<lparr>pttl_replies := stl (pttl_replies w)\<rparr>)))"

definition getAsync :: "string \<Rightarrow> world \<Rightarrow> js_string option outcome \<times> world" where
  "getAsync key w =
     (let r = shd (get_replies w)
      in (r, elapse (Get key) (\<not> isl r) (w\<lparr>get_replies := stl (get_replies w)\<rparr>)))"

definition setAsync :: "string \<Rightarrow> string \<Rightarrow> world \<Rightarrow> unit outcome \<times> world" where
  "setAsync key v w =
     (let r = shd (set_replies w)
      in (r, elapse (Set key v) (\<not> isl r) (w\<lparr>set_replies := stl (set_replies w)\<rparr>)))"

definition pexpireAsync :: "string \<Rightarrow> int \<Rightarrow> world \<Rightarrow> unit outcome \<times> world" where
  "pexpireAsync key ms w =
     (let r = shd (pexpire_replies w)
      in (r, elapse (Pexpire key ms) (\<not> isl r) (w\<lparr>pexpire_replies := stl (pexpire_replies w)\<rparr>)))"

definition delAsync :: "string \<Rightarrow> world \<Rightarrow> unit outcome \<times> world" where
  "delAsync key w =
     (let r = shd (del_replies w)
      in (r, elapse (Del key) (\<not> isl r) (w\<lparr>del_replies := stl (del_replies w)\<rparr>)))"

definition redlock_lock :: "string \<Rightarrow> int \<Rightarrow> world \<Rightarrow> lock outcome \<times> world" where
  "redlock_lock resource ttl w =
     (let r = shd (lock_replies w)
      in (case r of Inl e \<Rightarrow> Inl e | Inr v \<Rightarrow> Inr (Lock resource v),
          elapse (RedlockLock resource ttl) (\<not> isl r) (w\<lparr>lock_replies := stl (lock_replies w)\<rparr>)))"

definition lock_extend :: "lock \<Rightarrow> int \<Rightarrow> world \<Rightarrow> unit outcome \<times> world" where
  "lock_extend l ttl w =
     (let r = shd (extend_replies w)
      in (r, elapse (Extend l ttl) (\<not> isl r) (w\<lparr>extend_replies := stl (extend_replies w)\<rparr>)))"

definition lock_unlock :: "lock \<Rightarrow> world \<Rightarrow> unit outcome \<times> world" where
  "lock_unlock l w =
     (let r = shd (unlock_replies w)
      in (r, elapse (Unlock l) (\<not> isl r) (w\<lparr>unlock_replies := stl (unlock_replies w)\<rparr>)))"

text \<open>
  \<^verbatim>\<open>Bluebird.delay(ms)\<close> resolves after \<open>ms\<close> milliseconds at the earliest; it never rejects.
\<close>

definition delay :: "int \<Rightarrow> world \<Rightarrow> world" where
  "delay ms w =
     w\<lparr>now := now w + ms + int (shd (latency w)),
       latency := stl (latency w),
       trace := trace w @ [\<lparr>at = now w, cmd = Delay ms, ok = True\<rparr>]\<rparr>"

text \<open>\<^verbatim>\<open>setInterval\<close> and \<^verbatim>\<open>clearInterval\<close> are synchronous and take no time.\<close>

definition setInterval :: "callback \<Rightarrow> int \<Rightarrow> world \<Rightarrow> nat \<times> world" where
  "setInterval cb ms w =
     (next_timer w,
      w\<lparr>timers := (timers w)(next_timer w \<mapsto> Interval cb ms),
        next_timer := Suc (next_timer w),
        trace := trace w @ [\<lparr>at = now w, cmd = SetInterval (next_timer w) ms, ok = True\<rparr>]\<rparr>)"

definition clearInterval :: "nat \<Rightarrow> world \<Rightarrow> world" where
  "clearInterval token w =
     w\<lparr>timers := (timers w)(token := None),
       trace := trace w @ [\<lparr>at = now w, cmd = ClearInterval token, ok = True\<rparr>]\<rparr>"

text \<open>The events a run from \<open>w\<close> to \<open>w'\<close> has added to the trace.\<close>

definition events_since :: "world \<Rightarrow> world \<Rightarrow> event list" where
  "events_since w w' = drop (length (trace w)) (trace w')"

section \<open>JavaScript values\<close>

text \<open>
  \<^verbatim>\<open>parseInt(s, 10)\<close>, as ECMAScript defines it: leading white space and line terminators
  are skipped (tab, line feed, vertical tab, form feed, carriage return, space, no-break
  space, the space separators \<open>U+1680\<close>, \<open>U+2000\<close> to \<open>U+200A\<close>, \<open>U+202F\<close>, \<open>U+205F\<close>,
  \<open>U+3000\<close>, the line and paragraph separators \<open>U+2028\<close> and \<open>U+2029\<close>, and \<open>U+FEFF\<close>),
  then an optional sign, then the longest run of the digits \<open>0\<close> to \<open>9\<close>; no digit at all gives
  \<^verbatim>\<open>NaN\<close>, here \<open>None\<close>. With the radix given as 10 no \<^verbatim>\<open>0x\<close> prefix is read.
\<close>

definition is_space :: "16 word \<Rightarrow> bool" where
  "is_space c \<longleftrightarrow>
     c \<in> {0x9, 0xA, 0xB, 0xC, 0xD, 0x20, 0xA0, 0x1680, 0x2028, 0x2029, 0x202F, 0x205F,
          0x3000, 0xFEFF} \<or>
     (0x2000 \<le> c \<and> c \<le> 0x200A)"

definition is_digit :: "16 word \<Rightarrow> bool" where
  "is_digit c \<longleftrightarrow> 0x30 \<le> c \<and> c \<le> 0x39"

definition digits_value :: "js_string \<Rightarrow> nat" where
  "digits_value ds = foldl (\<lambda>a c. 10 * a + (unat c - 48)) 0 ds"

definition parseInt10 :: "js_string \<Rightarrow> int option" where
  "parseInt10 s =
     (let s1 = dropWhile is_space s;
          neg = (s1 \<noteq> [] \<and> hd s1 = 0x2D);
          s2 = (if s1 \<noteq> [] \<and> (hd s1 = 0x2D \<or> hd s1 = 0x2B) then tl s1 else s1);
          z = takeWhile is_digit s2
      in if z = [] then None
         else Some (if neg then - int (digits_value z) else int (digits_value z)))"

text \<open>The JavaScript string of an ASCII literal: one code unit for each character.\<close>

definition utf16 :: "string \<Rightarrow> js_string" where
  "utf16 s = map of_char s"

text \<open>\<^verbatim>\<open>String(n)\<close> of an integer: its decimal digits, with a minus sign when negative.\<close>

fun digits_of :: "nat \<Rightarrow> string" where
  "digits_of n =
     (if n < 10 then [''0123456789'' ! n]
      else digits_of (n div 10) @ [''0123456789'' ! (n mod 10)])"

declare digits_of.simps [simp del]

definition String :: "int \<Rightarrow> string" where
  "String i = (if i < 0 then CHR ''-'' # digits_of (nat (- i)) else digits_of (nat i))"

text \<open>A number that may be \<^verbatim>\<open>Number.POSITIVE_INFINITY\<close>, and \<^verbatim>\<open>a > b\<close> on it.\<close>

datatype number = Finite int | POSITIVE_INFINITY

fun greater :: "number \<Rightarrow> int \<Rightarrow> bool" where
  "greater (Finite a) b = (a > b)"
| "greater POSITIVE_INFINITY b = True"

section \<open>The module\<close>

subsection \<open>\<^verbatim>\<open>checkBinaryExistance\<close>\<close>

text \<open>
  \<^verbatim>\<open>redisMetadataSuffix\<close> is imported from \<^verbatim>\<open>../interfaces\<close>; it is a parameter here.
  \<^verbatim>\<open>!!n\<close> of a number is \<open>n \<noteq> 0\<close>. Nothing catches a rejected \<^verbatim>\<open>existsAsync\<close>.
\<close>

definition checkBinaryExistance :: "string \<Rightarrow> string \<Rightarrow> world \<Rightarrow> bool outcome \<times> world" where
  "checkBinaryExistance redisMetadataSuffix name w =
     (case existsAsync (name @ redisMetadataSuffix) w of
        (Inl e, w1) \<Rightarrow> (Inl e, w1)
      | (Inr n, w1) \<Rightarrow> (Inr (n \<noteq> 0), w1))"

subsection \<open>\<^verbatim>\<open>forceResetLockIfStale\<close>\<close>

definition lockTTL :: int where
  "lockTTL = 5000"

definition maxWaitMs :: int where
  "maxWaitMs = 15000"

text \<open>
  \<^verbatim>\<open>rawTs ? parseInt(rawTs, 10) : 0\<close>: \<^verbatim>\<open>null\<close> and the empty string are falsy.
  \<open>None\<close> is \<^verbatim>\<open>NaN\<close>.
\<close>

definition heartbeatTs :: "js_string option \<Rightarrow> int option" where
  "heartbeatTs rawTs =
     (case rawTs of
        None \<Rightarrow> Some 0
      | Some s \<Rightarrow> if s = [] then Some 0 else parseInt10 s)"

text \<open>
  \<^verbatim>\<open>hbTs ? Date.now() - hbTs : Number.POSITIVE_INFINITY\<close>: zero and \<^verbatim>\<open>NaN\<close> are falsy.
\<close>

definition heartbeatAge :: "int option \<Rightarrow> int \<Rightarrow> number" where
  "heartbeatAge hbTs date_now =
     (case hbTs of
        None \<Rightarrow> POSITIVE_INFINITY
      | Some t \<Rightarrow> if t = 0 then POSITIVE_INFINITY else Finite (date_now - t))"

text \<open>The body of the \<^verbatim>\<open>try\<close> block: the first call that throws ends it.\<close>

definition forceResetLockIfStale_try :: "string \<Rightarrow> string \<Rightarrow> world \<Rightarrow> bool outcome \<times> world" where
  "forceResetLockIfStale_try resource heartbeatKey w =
     (case pttlAsync resource w of
        (Inl e, w1) \<Rightarrow> (Inl e, w1)
      | (Inr ttl, w1) \<Rightarrow>
          if ttl = - 2 then (Inr True, w1)
          else
            (case getAsync heartbeatKey w1 of
               (Inl e, w2) \<Rightarrow> (Inl e, w2)
             | (Inr rawTs, w2) \<Rightarrow>
                 let hbTs = heartbeatTs rawTs;
                     hbAge = heartbeatAge hbTs (now w2)
                 in if ttl = - 1 \<or> greater hbAge (lockTTL * 2) then
                      (case delAsync resource w2 of
                         (Inl e, w3) \<Rightarrow> (Inl e, w3)
                       | (Inr _, w3) \<Rightarrow>
                           (case delAsync heartbeatKey w3 of
                              (Inl e, w4) \<Rightarrow> (Inl e, w4)
                            | (Inr _, w4) \<Rightarrow> (Inr True, w4)))
                    else (Inr False, w2)))"

text \<open>
  \<^verbatim>\<open>catch (_) { }\<close> and the \<^verbatim>\<open>return false\<close> after it; a \<^verbatim>\<open>false\<close> from the \<^verbatim>\<open>try\<close> block
  falls through to the same \<^verbatim>\<open>return false\<close>.
\<close>

definition forceResetLockIfStale :: "string \<Rightarrow> string \<Rightarrow> world \<Rightarrow> bool outcome \<times> world" where
  "forceResetLockIfStale resource heartbeatKey w =
     (case forceResetLockIfStale_try resource heartbeatKey w of
        (Inl e, w1) \<Rightarrow> (Inr False, w1)
      | (Inr reset, w1) \<Rightarrow> (Inr reset, w1))"

subsection \<open>The heartbeat and the release function\<close>

definition heartbeatTick_try :: "lock \<Rightarrow> string \<Rightarrow> world \<Rightarrow> unit outcome \<times> world" where
  "heartbeatTick_try l heartbeatKey w =
     (case lock_extend l lockTTL w of
        (Inl e, w1) \<Rightarrow> (Inl e, w1)
      | (Inr _, w1) \<Rightarrow>
          (case setAsync heartbeatKey (String (now w1)) w1 of
             (Inl e, w2) \<Rightarrow> (Inl e, w2)
           | (Inr _, w2) \<Rightarrow> pexpireAsync heartbeatKey (lockTTL * 2) w2))"

definition heartbeatTick :: "lock \<Rightarrow> string \<Rightarrow> world \<Rightarrow> unit outcome \<times> world" where
  "heartbeatTick l heartbeatKey w = (Inr (), snd (heartbeatTick_try l heartbeatKey w))"

fun run_callback :: "callback \<Rightarrow> world \<Rightarrow> unit outcome \<times> world" where
  "run_callback (HeartbeatTick l heartbeatKey) w = heartbeatTick l heartbeatKey w"

text \<open>The runtime firing a timer: a cleared token has no callback left to run.\<close>

definition fire :: "nat \<Rightarrow> world \<Rightarrow> world" where
  "fire token w =
     (case timers w token of
        None \<Rightarrow> w
      | Some t \<Rightarrow> snd (run_callback (timer_callback t) w))"

text \<open>
  The two closures \<^verbatim>\<open>getCompileLock\<close> returns, as data: the release function of an
  acquired lock (it captures \<^verbatim>\<open>token\<close>, \<^verbatim>\<open>lock\<close> and \<^verbatim>\<open>heartbeatKey\<close>) and the fallback
  \<^verbatim>\<open>async () => {}\<close>.
\<close>

datatype releaseFn = Release nat lock string | Noop

fun run_release :: "releaseFn \<Rightarrow> world \<Rightarrow> unit outcome \<times> world" where
  "run_release (Release token l heartbeatKey) w =
     (let w1 = clearInterval token w;
          w2 = snd (lock_unlock l w1);
          w3 = snd (delAsync heartbeatKey w2)
      in (Inr (), w3))"
| "run_release Noop w = (Inr (), w)"

subsection \<open>\<^verbatim>\<open>getCompileLock\<close>\<close>

text \<open>
  The \<^verbatim>\<open>try\<close> block of the loop. \<^verbatim>\<open>Math.floor(lockTTL * 0.7)\<close> is \<open>3500\<close> (the product of the
  doubles \<open>5000\<close> and \<open>0.7\<close> is exactly \<open>3500\<close>), written \<open>lockTTL * 7 div 10\<close>.
\<close>

definition tryAcquire :: "string \<Rightarrow> string \<Rightarrow> world \<Rightarrow> releaseFn outcome \<times> world" where
  "tryAcquire resource heartbeatKey w =
     (case redlock_lock resource lockTTL w of
        (Inl e, w1) \<Rightarrow> (Inl e, w1)
      | (Inr l, w1) \<Rightarrow>
          (case setAsync heartbeatKey (String (now w1)) w1 of
             (Inl e, w2) \<Rightarrow> (Inl e, w2)
           | (Inr _, w2) \<Rightarrow>
               (case pexpireAsync heartbeatKey (lockTTL * 2) w2 of
                  (Inl e, w3) \<Rightarrow> (Inl e, w3)
                | (Inr _, w3) \<Rightarrow>
                    (case setInterval (HeartbeatTick l heartbeatKey) (lockTTL * 7 div 10) w3 of
                       (token, w4) \<Rightarrow> (Inr (Release token l heartbeatKey), w4)))))"

text \<open>
  \<^verbatim>\<open>while (true)\<close>: a run that never leaves the loop is \<open>None\<close>. An exception thrown
  inside the \<^verbatim>\<open>catch\<close> block would leave the function, as in JavaScript.
\<close>

partial_function (option) acquireLoop ::
  "string \<Rightarrow> string \<Rightarrow> int \<Rightarrow> world \<Rightarrow> (releaseFn outcome \<times> world) option" where
  "acquireLoop resource heartbeatKey start w =
     (case tryAcquire resource heartbeatKey w of
        (Inr release, w1) \<Rightarrow> Some (Inr release, w1)
      | (Inl e, w1) \<Rightarrow>
          if now w1 - start \<ge> maxWaitMs then
            (case forceResetLockIfStale resource heartbeatKey w1 of
               (Inl e', w2) \<Rightarrow> Some (Inl e', w2)
             | (Inr reset, w2) \<Rightarrow>
                 if \<not> reset then Some (Inr Noop, w2)
                 else acquireLoop resource heartbeatKey start (delay 200 w2))
          else acquireLoop resource heartbeatKey start (delay 200 w1))"

definition getCompileLock :: "string \<Rightarrow> world \<Rightarrow> (releaseFn outcome \<times> world) option" where
  "getCompileLock name w =
     (let resource = ''compile-'' @ name;
          heartbeatKey = resource @ '':hb'';
          start = now w
      in acquireLoop resource heartbeatKey start w)"

subsection \<open>The loop, one iteration at a time\<close>

text \<open>
  The body of \<^verbatim>\<open>while (true)\<close> once more, as a step: an iteration either leaves the function
  (\<open>Returned\<close>) or reaches the head of the loop again (\<open>Running\<close>). \<open>run n\<close> is the call after
  at most \<open>n\<close> iterations; it is defined for the calls that never return as well.
\<close>

datatype progress = Running world | Returned "releaseFn outcome" world

definition iteration :: "string \<Rightarrow> string \<Rightarrow> int \<Rightarrow> world \<Rightarrow> progress" where
  "iteration resource heartbeatKey start w =
     (case tryAcquire resource heartbeatKey w of
        (Inr release, w1) \<Rightarrow> Returned (Inr release) w1
      | (Inl e, w1) \<Rightarrow>
          if now w1 - start \<ge> maxWaitMs then
            (case forceResetLockIfStale resource heartbeatKey w1 of
               (Inl e', w2) \<Rightarrow> Returned (Inl e') w2
             | (Inr reset, w2) \<Rightarrow>
                 if \<not> reset then Returned (Inr Noop) w2
                 else Running (delay 200 w2))
          else Running (delay 200 w1))"

fun run :: "nat \<Rightarrow> string \<Rightarrow> string \<Rightarrow> int \<Rightarrow> world \<Rightarrow> progress" where
  "run 0 resource heartbeatKey start w = Running w"
| "run (Suc n) resource heartbeatKey start w =
     (case iteration resource heartbeatKey start w of
        Returned result w1 \<Rightarrow> Returned result w1
      | Running w1 \<Rightarrow> run n resource heartbeatKey start w1)"

section \<open>Reading a trace\<close>

fun is_lock_attempt :: "command \<Rightarrow> bool" where
  "is_lock_attempt (RedlockLock resource ttl) = True"
| "is_lock_attempt c = False"

fun is_lease_query :: "command \<Rightarrow> bool" where
  "is_lease_query (Pttl key) = True"
| "is_lease_query c = False"

text \<open>
  Every iteration of the loop calls \<^verbatim>\<open>redlock.lock\<close> once, and \<^verbatim>\<open>pttlAsync\<close> is called by
  \<^verbatim>\<open>forceResetLockIfStale\<close> alone, once and first: the lock calls of a trace count the acquire
  attempts, its lease queries the detector passes.
\<close>

definition attempts :: "event list \<Rightarrow> nat" where
  "attempts evs = length (filter (\<lambda>ev. is_lock_attempt (cmd ev)) evs)"

definition detector_passes :: "event list \<Rightarrow> nat" where
  "detector_passes evs = length (filter (\<lambda>ev. is_lease_query (cmd ev)) evs)"

section \<open>Some environments\<close>

text \<open>A store that cannot be reached: every call is rejected, at once.\<close>

definition unreachable :: world where
  "unreachable =
     \<lparr>now = 100000,
      latency = sconst 0,
      exists_replies = sconst (Inl StoreError),
      pttl_replies = sconst (Inl StoreError),
      get_replies = sconst (Inl StoreError),
      set_replies = sconst (Inl StoreError),
      pexpire_replies = sconst (Inl StoreError),
      del_replies = sconst (Inl StoreError),
      lock_replies = sconst (Inl LockError),
      extend_replies = sconst (Inl LockError),
      unlock_replies = sconst (Inl LockError),
      trace = [],
      timers = Map.empty,
      next_timer = 0\<rparr>"

text \<open>A store that answers every call, holds no key and grants the lock (with value \<open>7\<close>).\<close>

definition healthy :: world where
  "healthy =
     \<lparr>now = 100000,
      latency = sconst 1,
      exists_replies = sconst (Inr 0),
      pttl_replies = sconst (Inr (- 2)),
      get_replies = sconst (Inr None),
      set_replies = sconst (Inr ()),
      pexpire_replies = sconst (Inr ()),
      del_replies = sconst (Inr ()),
      lock_replies = sconst (Inr 7),
      extend_replies = sconst (Inr ()),
      unlock_replies = sconst (Inr ()),
      trace = [],
      timers = Map.empty,
      next_timer = 0\<rparr>"

text \<open>
  A read-only replica: reads are answered (no key is there), every write is rejected, so
  \<^verbatim>\<open>redlock.lock\<close> fails each time, after its own retries (ten seconds).
\<close>

definition readonly_replica :: world where
  "readonly_replica =
     healthy\<lparr>latency := sconst 10000,
             set_replies := sconst (Inl StoreError),
             pexpire_replies := sconst (Inl StoreError),
             del_replies := sconst (Inl StoreError),
             lock_replies := sconst (Inl LockError),
             extend_replies := sconst (Inl LockError),
             unlock_replies := sconst (Inl LockError)\<rparr>"

text \<open>
  A lock whose holder is gone: the lease has four seconds left, the heartbeat was written
  at \<open>80000\<close>, twenty seconds before the detector looks.
\<close>

definition stale_lock :: world where
  "stale_lock =
     healthy\<lparr>pttl_replies := sconst (Inr 4000),
             get_replies := sconst (Inr (Some (utf16 ''80000'')))\<rparr>"

text \<open>A lease that was set without expiry, on a store whose next read is rejected.\<close>

definition lease_without_expiry :: world where
  "lease_without_expiry =
     healthy\<lparr>pttl_replies := sconst (Inr (- 1)), get_replies := sconst (Inl StoreError)\<rparr>"

text \<open>A heartbeat key that holds something that is no timestamp.\<close>

definition garbled_heartbeat :: world where
  "garbled_heartbeat =
     healthy\<lparr>pttl_replies := sconst (Inr 4000), get_replies := sconst (Inr (Some (utf16 ''abc'')))\<rparr>"

text \<open>A heartbeat key that holds \<open>0\<close>.\<close>

definition zero_heartbeat :: world where
  "zero_heartbeat =
     healthy\<lparr>pttl_replies := sconst (Inr 4000), get_replies := sconst (Inr (Some (utf16 ''0'')))\<rparr>"

text \<open>
  An outage: the first call takes fifteen seconds to be rejected, the following ones are
  rejected at once.
\<close>

definition outage :: world where
  "outage = unreachable\<lparr>latency := 15000 ## sconst 0\<rparr>"

text \<open>
  The end of an outage: the first lock call is rejected after fifteen seconds; after that the
  store answers, holds no key and grants the lock.
\<close>

definition after_outage :: world where
  "after_outage =
     healthy\<lparr>latency := 15000 ## sconst 1,
             lock_replies := Inl LockError ## sconst (Inr 7)\<rparr>"

text \<open>The head of the loop the second time round, in that environment.\<close>

definition second_attempt :: world where
  "second_attempt =
     delay 200
       (snd (forceResetLockIfStale ''compile-foo'' ''compile-foo:hb''
         (snd (tryAcquire ''compile-foo'' ''compile-foo:hb'' after_outage))))"

text \<open>An environment in which every lock call is rejected and every lease query finds no key.\<close>

definition spinning :: "world \<Rightarrow> bool" where
  "spinning w \<longleftrightarrow>
     lock_replies w = sconst (Inl LockError) \<and> pttl_replies w = sconst (Inr (- 2))"

section \<open>Unfolding the store calls\<close>

lemmas store_defs = existsAsync_def pttlAsync_def getAsync_def setAsync_def pexpireAsync_def
  delAsync_def redlock_lock_def lock_extend_def lock_unlock_def elapse_def Let_def

lemmas detector_defs = forceResetLockIfStale_def forceResetLockIfStale_try_def

lemma events_since_append [simp]: "trace w' = trace w @ evs \<Longrightarrow> events_since w w' = evs"
  by (simp add: events_since_def)

lemma events_since_self [simp]: "events_since w w = []"
  by (simp add: events_since_def)

section \<open>The existence check\<close>

text \<open>
  C9. For every name and every environment, \<^verbatim>\<open>checkBinaryExistance(name)\<close> issues exactly one
  command, the existence query on the key \<open>name @ redisMetadataSuffix\<close>, and nothing else
  (no write, no deletion, no lock call, no timer), and it returns true exactly when the store
  answers that query with a nonzero count, that is when the key exists; a rejected query is
  rejected to the caller.
\<close>

theorem checkBinaryExistance_reads:
  "fst (checkBinaryExistance redisMetadataSuffix name w) =
     map_sum id (\<lambda>n. n \<noteq> 0) (shd (exists_replies w)) \<and>
   (fst (checkBinaryExistance redisMetadataSuffix name w) = Inr True) =
     (\<exists>n. shd (exists_replies w) = Inr n \<and> n \<noteq> 0) \<and>
   events_since w (snd (checkBinaryExistance redisMetadataSuffix name w)) =
     [\<lparr>at = now w, cmd = Exists (name @ redisMetadataSuffix),
       ok = (\<not> isl (shd (exists_replies w)))\<rparr>] \<and>
   timers (snd (checkBinaryExistance redisMetadataSuffix name w)) = timers w"
  by (cases "shd (exists_replies w)")
    (simp_all add: checkBinaryExistance_def store_defs events_since_def)

section \<open>The stale-lock detector\<close>

lemma detector_never_throws: "fst (forceResetLockIfStale resource heartbeatKey w) \<noteq> Inl e"
  by (simp add: forceResetLockIfStale_def split: prod.splits sum.splits)

text \<open>
  C4. When the remaining-lease query reports the resource key absent (\<open>-2\<close>), the detector
  returns true at once: the lease query is the only command it issues, so the heartbeat key is
  not read and nothing is deleted.
\<close>

theorem detector_key_absent:
  assumes "shd (pttl_replies w) = Inr (- 2)"
  shows "fst (forceResetLockIfStale resource heartbeatKey w) = Inr True \<and>
    events_since w (snd (forceResetLockIfStale resource heartbeatKey w)) =
      [\<lparr>at = now w, cmd = Pttl resource, ok = True\<rparr>] \<and>
    get_replies (snd (forceResetLockIfStale resource heartbeatKey w)) = get_replies w \<and>
    del_replies (snd (forceResetLockIfStale resource heartbeatKey w)) = del_replies w"
  using assms by (simp add: detector_defs store_defs events_since_def)

theorem detector_key_absent_witness:
  "shd (pttl_replies healthy) = Inr (- 2) \<and>
   fst (forceResetLockIfStale ''compile-foo'' ''compile-foo:hb'' healthy) = Inr True \<and>
   events_since healthy (snd (forceResetLockIfStale ''compile-foo'' ''compile-foo:hb'' healthy)) =
     [\<lparr>at = 100000, cmd = Pttl ''compile-foo'', ok = True\<rparr>]"
proof -
  have h: "shd (pttl_replies healthy) = Inr (- 2)"
    by (simp add: healthy_def)
  have n: "now healthy = 100000"
    by (simp add: healthy_def)
  show ?thesis
    using h detector_key_absent [OF h, of "''compile-foo''" "''compile-foo:hb''"]
    by (simp add: n)
qed

lemmas parse_defs = parseInt10_def is_space_def is_digit_def digits_value_def utf16_def

lemma parseInt10_Nil: "parseInt10 [] = None"
  by (simp add: parseInt10_def)

lemma parseInt10_abc: "parseInt10 (utf16 ''abc'') = None"
  by (simp add: parse_defs)

lemma parseInt10_0: "parseInt10 (utf16 ''0'') = Some 0"
  by (simp add: parse_defs)

lemma parseInt10_80000: "parseInt10 (utf16 ''80000'') = Some 80000"
  by (simp add: parse_defs)

text \<open>White space beyond ASCII is skipped as well, and a sign is read once.\<close>

lemma parseInt10_nbsp: "parseInt10 [0xA0, 0x32] = Some 2"
  by (simp add: parse_defs)

lemma parseInt10_separators: "parseInt10 [0xFEFF, 0x2003, 0x2028, 0x2D, 0x32, 0x31, 0x78] = Some (- 21)"
  by (simp add: parse_defs)

lemma parseInt10_signs: "parseInt10 (utf16 ''+-5'') = None"
  by (simp add: parse_defs)

lemma heartbeatAge_absent: "heartbeatAge (heartbeatTs None) date_now = POSITIVE_INFINITY"
  by (simp add: heartbeatAge_def heartbeatTs_def)

lemma heartbeatAge_timestamp:
  "parseInt10 s = Some t \<Longrightarrow> t \<noteq> 0 \<Longrightarrow>
   heartbeatAge (heartbeatTs (Some s)) date_now = Finite (date_now - t)"
  by (cases "s = []") (simp_all add: heartbeatAge_def heartbeatTs_def parseInt10_Nil)

text \<open>
  C5. Whenever a store call made by the detector is rejected (an event of its run that is not
  \<open>ok\<close>), the detector returns false; it never rejects itself (\<open>detector_never_throws\<close>),
  and when the rejected call is one of the two queries no deletion is issued at all.
\<close>

theorem detector_store_error:
  assumes "\<exists>ev \<in> set (events_since w (snd (forceResetLockIfStale resource heartbeatKey w))). \<not> ok ev"
  shows "fst (forceResetLockIfStale resource heartbeatKey w) = Inr False \<and>
    ((\<exists>ev \<in> set (events_since w (snd (forceResetLockIfStale resource heartbeatKey w))).
        \<not> ok ev \<and> cmd ev \<in> {Pttl resource, Get heartbeatKey}) \<longrightarrow>
     (\<forall>ev \<in> set (events_since w (snd (forceResetLockIfStale resource heartbeatKey w))).
        cmd ev \<notin> {Del resource, Del heartbeatKey}))"
  using assms
  by (auto simp: detector_defs store_defs events_since_def split: sum.splits if_splits)

theorem detector_store_error_witness:
  "events_since unreachable
     (snd (forceResetLockIfStale ''compile-foo'' ''compile-foo:hb'' unreachable)) =
     [\<lparr>at = 100000, cmd = Pttl ''compile-foo'', ok = False\<rparr>] \<and>
   fst (forceResetLockIfStale ''compile-foo'' ''compile-foo:hb'' unreachable) = Inr False"
proof -
  have e: "events_since unreachable
      (snd (forceResetLockIfStale ''compile-foo'' ''compile-foo:hb'' unreachable)) =
    [\<lparr>at = 100000, cmd = Pttl ''compile-foo'', ok = False\<rparr>]"
    by (simp add: unreachable_def detector_defs store_defs events_since_def)
  have h: "\<exists>ev \<in> set (events_since unreachable
      (snd (forceResetLockIfStale ''compile-foo'' ''compile-foo:hb'' unreachable))). \<not> ok ev"
    by (simp add: e)
  show ?thesis
    using detector_store_error [OF h] by (simp add: e)
qed

text \<open>
  C3, as the code has it. The claim supposes only that the lease query runs without error,
  but the heartbeat read and the two deletions are store calls as well, inside the same
  \<^verbatim>\<open>try\<close>: with a lease without expiry and a rejected heartbeat read the detector returns
  false and deletes nothing.
\<close>

theorem detector_verdict_counterexample:
  "shd (pttl_replies lease_without_expiry) = Inr (- 1) \<and>
   fst (forceResetLockIfStale ''compile-foo'' ''compile-foo:hb'' lease_without_expiry) = Inr False \<and>
   events_since lease_without_expiry
       (snd (forceResetLockIfStale ''compile-foo'' ''compile-foo:hb'' lease_without_expiry)) =
     [\<lparr>at = 100000, cmd = Pttl ''compile-foo'', ok = True\<rparr>,
      \<lparr>at = 100001, cmd = Get ''compile-foo:hb'', ok = False\<rparr>]"
  by (simp add: lease_without_expiry_def healthy_def detector_defs store_defs events_since_def)

text \<open>
  C3, amended. In a run of the detector in which no store call is rejected and the lease
  query does not report the key absent: if the lease has no expiry (\<open>-1\<close>) or the heartbeat
  age, taken when the heartbeat read has returned, exceeds \<open>10000\<close> ms, the detector deletes
  the resource key, then the heartbeat key, and returns true; otherwise it returns false
  after its two queries, with no deletion. The age is infinite for an absent heartbeat
  (\<open>heartbeatAge_absent\<close>) and the time of the check minus the timestamp for a nonzero
  timestamp (\<open>heartbeatAge_timestamp\<close>).
\<close>

theorem detector_verdict:
  assumes "shd (pttl_replies w) = Inr ttl" and "ttl \<noteq> - 2"
    and "shd (get_replies w) = Inr rawTs"
    and "\<forall>ev \<in> set (events_since w (snd (forceResetLockIfStale resource heartbeatKey w))). ok ev"
  shows "if ttl = - 1 \<or>
        greater (heartbeatAge (heartbeatTs rawTs)
          (now (snd (getAsync heartbeatKey (snd (pttlAsync resource w)))))) 10000
     then fst (forceResetLockIfStale resource heartbeatKey w) = Inr True \<and>
       map cmd (events_since w (snd (forceResetLockIfStale resource heartbeatKey w))) =
         [Pttl resource, Get heartbeatKey, Del resource, Del heartbeatKey]
     else fst (forceResetLockIfStale resource heartbeatKey w) = Inr False \<and>
       map cmd (events_since w (snd (forceResetLockIfStale resource heartbeatKey w))) =
         [Pttl resource, Get heartbeatKey]"
  using assms
  by (auto simp: detector_defs store_defs events_since_def lockTTL_def
      split: sum.splits if_splits)

theorem detector_verdict_witness:
  "shd (pttl_replies stale_lock) = Inr 4000 \<and> (4000 :: int) \<noteq> - 2 \<and>
   shd (get_replies stale_lock) = Inr (Some (utf16 ''80000'')) \<and>
   map ok (events_since stale_lock
       (snd (forceResetLockIfStale ''compile-foo'' ''compile-foo:hb'' stale_lock))) =
     [True, True, True, True] \<and>
   heartbeatAge (heartbeatTs (Some (utf16 ''80000'')))
     (now (snd (getAsync ''compile-foo:hb'' (snd (pttlAsync ''compile-foo'' stale_lock))))) =
     Finite 20002 \<and>
   fst (forceResetLockIfStale ''compile-foo'' ''compile-foo:hb'' stale_lock) = Inr True \<and>
   map cmd (events_since stale_lock
       (snd (forceResetLockIfStale ''compile-foo'' ''compile-foo:hb'' stale_lock))) =
     [Pttl ''compile-foo'', Get ''compile-foo:hb'', Del ''compile-foo'', Del ''compile-foo:hb'']"
proof -
  have p: "shd (pttl_replies stale_lock) = Inr 4000"
    by (simp add: stale_lock_def)
  have g: "shd (get_replies stale_lock) = Inr (Some (utf16 ''80000''))"
    by (simp add: stale_lock_def)
  have a: "heartbeatAge (heartbeatTs (Some (utf16 ''80000'')))
     (now (snd (getAsync ''compile-foo:hb'' (snd (pttlAsync ''compile-foo'' stale_lock))))) =
     Finite 20002"
    by (simp add: heartbeatAge_timestamp [OF parseInt10_80000] stale_lock_def healthy_def store_defs)
  have e: "events_since stale_lock
       (snd (forceResetLockIfStale ''compile-foo'' ''compile-foo:hb'' stale_lock)) =
     [\<lparr>at = 100000, cmd = Pttl ''compile-foo'', ok = True\<rparr>,
      \<lparr>at = 100001, cmd = Get ''compile-foo:hb'', ok = True\<rparr>,
      \<lparr>at = 100002, cmd = Del ''compile-foo'', ok = True\<rparr>,
      \<lparr>at = 100003, cmd = Del ''compile-foo:hb'', ok = True\<rparr>]"
    by (simp add: stale_lock_def healthy_def detector_defs store_defs events_since_def
        heartbeatAge_def heartbeatTs_def parseInt10_80000 lockTTL_def)
  have k: "\<forall>ev \<in> set (events_since stale_lock
       (snd (forceResetLockIfStale ''compile-foo'' ''compile-foo:hb'' stale_lock))). ok ev"
    by (simp add: e)
  have n: "(4000 :: int) \<noteq> - 2"
    by simp
  show ?thesis
    using detector_verdict [OF p n g k] p g a by (simp add: e)
qed

text \<open>
  C10. A heartbeat value that is present but parses to \<^verbatim>\<open>NaN\<close> or to zero is treated as an
  absent one. Whatever lease the resource key has (any reply but \<open>-2\<close>) and whatever the time,
  the detector reads the value, takes the age as infinite and goes on to delete the resource
  key and then the heartbeat key; it returns true when both deletions succeed. Result and
  commands are those of the run in which the read finds no value.
\<close>

theorem heartbeat_unparsed:
  assumes "shd (pttl_replies w) = Inr ttl" and "ttl \<noteq> - 2"
    and "shd (get_replies w) = Inr (Some s)"
    and "parseInt10 s = None \<or> parseInt10 s = Some 0"
    and "w0 = w\<lparr>get_replies := Inr None ## stl (get_replies w)\<rparr>"
  shows "fst (forceResetLockIfStale resource heartbeatKey w) =
      Inr (\<not> isl (shd (del_replies w)) \<and> \<not> isl (shd (stl (del_replies w)))) \<and>
    map cmd (events_since w (snd (forceResetLockIfStale resource heartbeatKey w))) =
      (if isl (shd (del_replies w)) then [Pttl resource, Get heartbeatKey, Del resource]
       else [Pttl resource, Get heartbeatKey, Del resource, Del heartbeatKey]) \<and>
    fst (forceResetLockIfStale resource heartbeatKey w) =
      fst (forceResetLockIfStale resource heartbeatKey w0) \<and>
    events_since w (snd (forceResetLockIfStale resource heartbeatKey w)) =
      events_since w0 (snd (forceResetLockIfStale resource heartbeatKey w0)) \<and>
    heartbeatAge (heartbeatTs (Some s)) date_now = POSITIVE_INFINITY"
proof -
  have a: "heartbeatAge (heartbeatTs (Some s)) t = POSITIVE_INFINITY" for t
    using assms(4) by (auto simp: heartbeatAge_def heartbeatTs_def)
  have b: "heartbeatAge (heartbeatTs None) t = POSITIVE_INFINITY" for t
    by (simp add: heartbeatAge_def heartbeatTs_def)
  have r: "fst (forceResetLockIfStale resource heartbeatKey w) =
      Inr (\<not> isl (shd (del_replies w)) \<and> \<not> isl (shd (stl (del_replies w))))"
    using assms(1,2,3)
    by (cases "shd (del_replies w)"; cases "shd (stl (del_replies w))")
      (simp_all add: detector_defs store_defs a)
  have c: "map cmd (events_since w (snd (forceResetLockIfStale resource heartbeatKey w))) =
      (if isl (shd (del_replies w)) then [Pttl resource, Get heartbeatKey, Del resource]
       else [Pttl resource, Get heartbeatKey, Del resource, Del heartbeatKey])"
    using assms(1,2,3)
    by (cases "shd (del_replies w)"; cases "shd (stl (del_replies w))")
      (simp_all add: detector_defs store_defs events_since_def a)
  have r0: "fst (forceResetLockIfStale resource heartbeatKey w) =
      fst (forceResetLockIfStale resource heartbeatKey w0)"
    using assms(1,2,3) unfolding assms(5)
    by (cases "shd (del_replies w)"; cases "shd (stl (del_replies w))")
      (simp_all add: detector_defs store_defs a b)
  have e0: "events_since w (snd (forceResetLockIfStale resource heartbeatKey w)) =
      events_since w0 (snd (forceResetLockIfStale resource heartbeatKey w0))"
    using assms(1,2,3) unfolding assms(5)
    by (cases "shd (del_replies w)"; cases "shd (stl (del_replies w))")
      (simp_all add: detector_defs store_defs events_since_def a b)
  show ?thesis
    using r c r0 e0 a by simp
qed

theorem heartbeat_unparsed_witness:
  "shd (pttl_replies garbled_heartbeat) = Inr 4000 \<and>
   shd (get_replies garbled_heartbeat) = Inr (Some (utf16 ''abc'')) \<and>
   parseInt10 (utf16 ''abc'') = None \<and>
   fst (forceResetLockIfStale ''compile-foo'' ''compile-foo:hb'' garbled_heartbeat) = Inr True \<and>
   map cmd (events_since garbled_heartbeat
       (snd (forceResetLockIfStale ''compile-foo'' ''compile-foo:hb'' garbled_heartbeat))) =
     [Pttl ''compile-foo'', Get ''compile-foo:hb'', Del ''compile-foo'', Del ''compile-foo:hb''] \<and>
   shd (get_replies zero_heartbeat) = Inr (Some (utf16 ''0'')) \<and>
   parseInt10 (utf16 ''0'') = Some 0 \<and>
   fst (forceResetLockIfStale ''compile-foo'' ''compile-foo:hb'' zero_heartbeat) = Inr True \<and>
   map cmd (events_since zero_heartbeat
       (snd (forceResetLockIfStale ''compile-foo'' ''compile-foo:hb'' zero_heartbeat))) =
     [Pttl ''compile-foo'', Get ''compile-foo:hb'', Del ''compile-foo'', Del ''compile-foo:hb'']"
proof -
  have t: "shd (pttl_replies garbled_heartbeat) = Inr 4000"
    by (simp add: garbled_heartbeat_def)
  have g: "shd (get_replies garbled_heartbeat) = Inr (Some (utf16 ''abc''))"
    by (simp add: garbled_heartbeat_def)
  have p: "parseInt10 (utf16 ''abc'') = None \<or> parseInt10 (utf16 ''abc'') = Some 0"
    by (simp add: parseInt10_abc)
  have d: "shd (del_replies garbled_heartbeat) = Inr () \<and>
      shd (stl (del_replies garbled_heartbeat)) = Inr ()"
    by (simp add: garbled_heartbeat_def healthy_def)
  have t0: "shd (pttl_replies zero_heartbeat) = Inr 4000"
    by (simp add: zero_heartbeat_def)
  have g0: "shd (get_replies zero_heartbeat) = Inr (Some (utf16 ''0''))"
    by (simp add: zero_heartbeat_def)
  have p0: "parseInt10 (utf16 ''0'') = None \<or> parseInt10 (utf16 ''0'') = Some 0"
    by (simp add: parseInt10_0)
  have d0: "shd (del_replies zero_heartbeat) = Inr () \<and>
      shd (stl (del_replies zero_heartbeat)) = Inr ()"
    by (simp add: zero_heartbeat_def healthy_def)
  have n: "(4000 :: int) \<noteq> - 2"
    by simp
  note abc = heartbeat_unparsed [OF t n g p refl, of "''compile-foo''" "''compile-foo:hb''" 0]
  note zero = heartbeat_unparsed [OF t0 n g0 p0 refl, of "''compile-foo''" "''compile-foo:hb''" 0]
  show ?thesis
    using abc [THEN conjunct1] abc [THEN conjunct2, THEN conjunct1]
      zero [THEN conjunct1] zero [THEN conjunct2, THEN conjunct1] t g g0 d d0
    by (simp add: parseInt10_abc parseInt10_0)
qed

section \<open>The release function and the heartbeat\<close>

text \<open>
  C6. In every environment, the release function of an acquired lock returns normally. It
  clears the interval first, so that the token has no timer left and firing it does nothing;
  then it calls unlock and, whatever unlock answered, deletes the heartbeat key; a rejected
  call is only seen in the \<open>ok\<close> flag of its event. Invoked a second time it returns normally
  again, after the same three commands.
\<close>

theorem release_never_raises:
  "fst (run_release (Release token l heartbeatKey) w) = Inr () \<and>
   events_since w (snd (run_release (Release token l heartbeatKey) w)) =
     [\<lparr>at = now w, cmd = ClearInterval token, ok = True\<rparr>,
      \<lparr>at = now w, cmd = Unlock l, ok = (\<not> isl (shd (unlock_replies w)))\<rparr>,
      \<lparr>at = now w + int (shd (latency w)), cmd = Del heartbeatKey,
       ok = (\<not> isl (shd (del_replies w)))\<rparr>] \<and>
   timers (snd (run_release (Release token l heartbeatKey) w)) token = None \<and>
   fire token (snd (run_release (Release token l heartbeatKey) w)) =
     snd (run_release (Release token l heartbeatKey) w) \<and>
   fst (run_release (Release token l heartbeatKey)
     (snd (run_release (Release token l heartbeatKey) w))) = Inr () \<and>
   map cmd (events_since (snd (run_release (Release token l heartbeatKey) w))
     (snd (run_release (Release token l heartbeatKey)
       (snd (run_release (Release token l heartbeatKey) w))))) =
     [ClearInterval token, Unlock l, Del heartbeatKey]"
  by (simp add: store_defs clearInterval_def events_since_def fire_def)

text \<open>
  A tick never rejects; it extends the lease by \<open>5000\<close>, writes the time it reads after the
  extension into the heartbeat key and sets the key's expiry to \<open>10000\<close>, and stops at the
  first rejected call.
\<close>

lemma heartbeatTick_swallows:
  "fst (heartbeatTick l heartbeatKey v) = Inr () \<and>
   events_since v (snd (heartbeatTick l heartbeatKey v)) =
     (let t1 = now v + int (shd (latency v));
          t2 = t1 + int (shd (stl (latency v)));
          e1 = \<lparr>at = now v, cmd = Extend l 5000, ok = (\<not> isl (shd (extend_replies v)))\<rparr>;
          e2 = \<lparr>at = t1, cmd = Set heartbeatKey (String t1),
                ok = (\<not> isl (shd (set_replies v)))\<rparr>;
          e3 = \<lparr>at = t2, cmd = Pexpire heartbeatKey 10000,
                ok = (\<not> isl (shd (pexpire_replies v)))\<rparr>
      in if isl (shd (extend_replies v)) then [e1]
         else if isl (shd (set_replies v)) then [e1, e2]
         else [e1, e2, e3])"
  by (simp add: heartbeatTick_def heartbeatTick_try_def store_defs events_since_def lockTTL_def
      split: sum.splits)

section \<open>One attempt\<close>

lemma tryAcquire_trace:
  "\<exists>evs. trace (snd (tryAcquire resource heartbeatKey w)) = trace w @ evs \<and>
     attempts evs = 1 \<and> detector_passes evs = 0"
  by (simp add: tryAcquire_def store_defs setInterval_def attempts_def detector_passes_def
      split: sum.splits)

lemma tryAcquire_keeps:
  "now w \<le> now (snd (tryAcquire resource heartbeatKey w))"
  by (simp add: tryAcquire_def store_defs setInterval_def split: sum.splits)

lemma tryAcquire_release:
  "fst (tryAcquire r h w) = Inr release \<Longrightarrow> \<exists>token l. release = Release token l h"
  by (cases "shd (lock_replies w)")
    (auto simp: tryAcquire_def store_defs setInterval_def split: sum.splits)

lemma tryAcquire_acquired:
  assumes "tryAcquire resource heartbeatKey w = (Inr release, w')"
  shows "\<exists>v t1 t2 t3 t4.
     release = Release (next_timer w) (Lock resource v) heartbeatKey \<and>
     trace w' = trace w @
       [\<lparr>at = t1, cmd = RedlockLock resource 5000, ok = True\<rparr>,
        \<lparr>at = t2, cmd = Set heartbeatKey (String t2), ok = True\<rparr>,
        \<lparr>at = t3, cmd = Pexpire heartbeatKey 10000, ok = True\<rparr>,
        \<lparr>at = t4, cmd = SetInterval (next_timer w) 3500, ok = True\<rparr>] \<and>
     timers w' (next_timer w) =
       Some (Interval (HeartbeatTick (Lock resource v) heartbeatKey) 3500)"
  using assms
  by (cases "shd (lock_replies w)")
    (auto simp: tryAcquire_def store_defs setInterval_def lockTTL_def split: sum.splits)

section \<open>The loop, unfolded once\<close>

lemma acquireLoop_acquired:
  "fst (tryAcquire r h w) = Inr release \<Longrightarrow>
   acquireLoop r h s w = Some (Inr release, snd (tryAcquire r h w))"
  by (cases "tryAcquire r h w") (subst acquireLoop.simps, simp)

lemma acquireLoop_detector:
  "fst (tryAcquire r h w) = Inl e \<Longrightarrow> maxWaitMs \<le> now (snd (tryAcquire r h w)) - s \<Longrightarrow>
   acquireLoop r h s w =
     (case forceResetLockIfStale r h (snd (tryAcquire r h w)) of
        (Inl e', w2) \<Rightarrow> Some (Inl e', w2)
      | (Inr reset, w2) \<Rightarrow>
          if \<not> reset then Some (Inr Noop, w2)
          else acquireLoop r h s (delay 200 w2))"
  by (cases "tryAcquire r h w") (subst acquireLoop.simps, simp)

lemma acquireLoop_backoff:
  "fst (tryAcquire r h w) = Inl e \<Longrightarrow> \<not> maxWaitMs \<le> now (snd (tryAcquire r h w)) - s \<Longrightarrow>
   acquireLoop r h s w = acquireLoop r h s (delay 200 (snd (tryAcquire r h w)))"
  by (cases "tryAcquire r h w") (subst acquireLoop.simps, simp)

lemma delay_trace:
  "trace (delay ms w) = trace w @ [\<lparr>at = now w, cmd = Delay ms, ok = True\<rparr>]"
  by (simp add: delay_def)

lemma delay_now: "now w + ms \<le> now (delay ms w)"
  by (simp add: delay_def)

lemma detector_trace:
  "\<exists>evs. trace (snd (forceResetLockIfStale r h w)) = trace w @ evs"
  by (simp add: detector_defs store_defs split: sum.splits)

lemma detector_outcome:
  "(case forceResetLockIfStale r h w1 of
      (Inl e', w2) \<Rightarrow> Some (Inl e', w2)
    | (Inr reset, w2) \<Rightarrow>
        if \<not> reset then Some (Inr Noop, w2)
        else acquireLoop r h start (delay 200 w2)) =
   (if fst (forceResetLockIfStale r h w1) = Inr False
    then Some (Inr Noop, snd (forceResetLockIfStale r h w1))
    else acquireLoop r h start (delay 200 (snd (forceResetLockIfStale r h w1))))"
  using detector_never_throws [of r h w1]
  by (cases "forceResetLockIfStale r h w1") (auto split: sum.splits)

section \<open>Facts about every run of the loop\<close>

text \<open>Rule induction over the loop: what holds of every run that returns.\<close>

lemma acquireLoop_never_throws:
  assumes "acquireLoop r h s w = Some y"
  shows "\<exists>release. fst y = Inr release"
  using assms
proof (induction rule: acquireLoop.raw_induct [rotated 1, consumes 1])
  case (1 loop r h s w y)
  obtain a wa where a: "tryAcquire r h w = (a, wa)"
    by (cases "tryAcquire r h w")
  obtain b wb where b: "forceResetLockIfStale r h wa = (b, wb)"
    by (cases "forceResetLockIfStale r h wa")
  obtain reset where reset: "b = Inr reset"
    using detector_never_throws [of r h wa] b by (cases b) auto
  show ?case
    using "1.hyps" "1.IH" a b reset by (cases a) (auto split: if_splits)
qed

lemma acquireLoop_release_origin:
  assumes "acquireLoop r h s w = Some y"
  shows "\<forall>token l hb. fst y = Inr (Release token l hb) \<longrightarrow>
    (\<exists>w0 pre. trace w0 = trace w @ pre \<and> tryAcquire r h w0 = y)"
  using assms
proof (induction rule: acquireLoop.raw_induct [rotated 1, consumes 1])
  case (1 loop r h s w y)
  obtain a wa where a: "tryAcquire r h w = (a, wa)"
    by (cases "tryAcquire r h w")
  obtain b wb where b: "forceResetLockIfStale r h wa = (b, wb)"
    by (cases "forceResetLockIfStale r h wa")
  obtain evs where evs: "trace wa = trace w @ evs"
    using tryAcquire_trace [of r h w] a by auto
  obtain evs' where evs': "trace wb = trace wa @ evs'"
    using detector_trace [of r h wa] b by auto
  show ?case
  proof (cases a)
    case (Inr release)
    then have "y = tryAcquire r h w"
      using "1.hyps" a by simp
    then have "trace w = trace w @ [] \<and> tryAcquire r h w = y"
      by simp
    then show ?thesis by blast
  next
    case (Inl e)
    show ?thesis
    proof (cases "maxWaitMs \<le> now wa - s")
      case False
      then have "loop r h s (delay 200 wa) = Some y"
        using "1.hyps" a Inl by simp
      from "1.IH" [OF this] show ?thesis
        by (auto simp: delay_trace evs)
    next
      case True
      show ?thesis
      proof (cases b)
        case (Inl e')
        then show ?thesis
          using "1.hyps" a b \<open>a = Inl e\<close> True by auto
      next
        case (Inr reset)
        show ?thesis
        proof (cases reset)
          case False
          then show ?thesis
            using "1.hyps" a b \<open>a = Inl e\<close> True Inr by auto
        next
          case True
          then have "loop r h s (delay 200 wb) = Some y"
            using "1.hyps" a b \<open>a = Inl e\<close> \<open>maxWaitMs \<le> now wa - s\<close> Inr by simp
          from "1.IH" [OF this] show ?thesis
            by (auto simp: delay_trace evs evs')
        qed
      qed
    qed
  qed
qed

section \<open>The loop, iteration by iteration\<close>

text \<open>The loop is the repetition of \<open>iteration\<close>, and a run that returns is the call's result.\<close>

lemma acquireLoop_iteration:
  "acquireLoop r h s w =
     (case iteration r h s w of
        Returned result w1 \<Rightarrow> Some (result, w1)
      | Running w1 \<Rightarrow> acquireLoop r h s w1)"
  by (subst acquireLoop.simps) (simp add: iteration_def split: prod.splits sum.splits)

lemma run_acquireLoop:
  "run n r h s w = Returned result w' \<Longrightarrow> acquireLoop r h s w = Some (result, w')"
proof (induction n arbitrary: w)
  case 0
  then show ?case by simp
next
  case (Suc n)
  show ?case
  proof (cases "iteration r h s w")
    case (Running w1)
    then have "run n r h s w1 = Returned result w'"
      using Suc.prems by simp
    from Suc.IH [OF this] show ?thesis
      by (subst acquireLoop_iteration) (simp add: Running)
  next
    case (Returned x w1)
    then show ?thesis
      using Suc.prems by (subst acquireLoop_iteration) simp
  qed
qed

lemma iteration_acquired:
  "fst (tryAcquire r h w) = Inr release \<Longrightarrow>
   iteration r h s w = Returned (Inr release) (snd (tryAcquire r h w))"
  by (cases "tryAcquire r h w") (simp add: iteration_def)

lemma iteration_detector:
  "fst (tryAcquire r h w) = Inl e \<Longrightarrow> maxWaitMs \<le> now (snd (tryAcquire r h w)) - s \<Longrightarrow>
   iteration r h s w =
     (if fst (forceResetLockIfStale r h (snd (tryAcquire r h w))) = Inr False
      then Returned (Inr Noop) (snd (forceResetLockIfStale r h (snd (tryAcquire r h w))))
      else Running (delay 200 (snd (forceResetLockIfStale r h (snd (tryAcquire r h w))))))"
  using detector_never_throws [of r h "snd (tryAcquire r h w)"]
  by (cases "tryAcquire r h w"; cases "forceResetLockIfStale r h (snd (tryAcquire r h w))")
    (auto simp: iteration_def split: sum.splits)

lemma iteration_backoff:
  "fst (tryAcquire r h w) = Inl e \<Longrightarrow> \<not> maxWaitMs \<le> now (snd (tryAcquire r h w)) - s \<Longrightarrow>
   iteration r h s w = Running (delay 200 (snd (tryAcquire r h w)))"
  by (cases "tryAcquire r h w") (simp add: iteration_def)

text \<open>Counting attempts and detector passes in a trace.\<close>

lemma detector_events:
  "\<exists>evs. trace (snd (forceResetLockIfStale r h w)) = trace w @ evs \<and>
     attempts evs = 0 \<and> detector_passes evs = 1"
  by (simp add: detector_defs store_defs attempts_def detector_passes_def split: sum.splits)

lemma passes_append [simp]:
  "detector_passes (xs @ ys) = detector_passes xs + detector_passes ys"
  by (simp add: detector_passes_def)

lemma attempts_append [simp]: "attempts (xs @ ys) = attempts xs + attempts ys"
  by (simp add: attempts_def)

lemma attempts_Cons [simp]:
  "attempts (ev # evs) = (if is_lock_attempt (cmd ev) then 1 else 0) + attempts evs"
  by (simp add: attempts_def)

lemma passes_Cons [simp]:
  "detector_passes (ev # evs) = (if is_lease_query (cmd ev) then 1 else 0) + detector_passes evs"
  by (simp add: detector_passes_def)

lemma attempts_Nil [simp]: "attempts [] = 0"
  by (simp add: attempts_def)

lemma passes_Nil [simp]: "detector_passes [] = 0"
  by (simp add: detector_passes_def)

text \<open>
  One iteration either ends the call (at the latest with the attempt that follows a
  reclamation, when that attempt succeeds) or backs off before the maximum wait.
\<close>

lemma iteration_cases:
  assumes after_pass: "\<forall>v evs. iteration r h s u = Running v \<longrightarrow> trace v = trace u @ evs \<longrightarrow>
      0 < detector_passes evs \<longrightarrow> (\<exists>release. fst (tryAcquire r h v) = Inr release)"
  shows "(\<exists>m f w' evs. m \<le> 2 \<and> run m r h s u = Returned (Inr f) w' \<and>
        trace w' = trace u @ evs \<and> attempts evs \<le> 2 \<and> detector_passes evs \<le> 1) \<or>
     (\<exists>v evs. iteration r h s u = Running v \<and> trace v = trace u @ evs \<and>
        attempts evs = 1 \<and> detector_passes evs = 0 \<and>
        now u + 200 \<le> now v \<and> now u - s < maxWaitMs)"
proof -
  let ?wa = "snd (tryAcquire r h u)"
  obtain evsA where evsA: "trace ?wa = trace u @ evsA"
    "attempts evsA = 1" "detector_passes evsA = 0"
    using tryAcquire_trace by blast
  show ?thesis
  proof (cases "fst (tryAcquire r h u)")
    case (Inr release)
    have "run (Suc 0) r h s u = Returned (Inr release) ?wa"
      by (simp add: iteration_acquired [OF Inr])
    then have "Suc 0 \<le> 2 \<and> run (Suc 0) r h s u = Returned (Inr release) ?wa \<and>
        trace ?wa = trace u @ evsA \<and> attempts evsA \<le> 2 \<and> detector_passes evsA \<le> 1"
      using evsA by simp
    then show ?thesis by blast
  next
    case (Inl e)
    show ?thesis
    proof (cases "maxWaitMs \<le> now ?wa - s")
      case False
      let ?v = "delay 200 ?wa"
      let ?evs = "evsA @ [\<lparr>at = now ?wa, cmd = Delay 200, ok = True\<rparr>]"
      have "iteration r h s u = Running ?v \<and> trace ?v = trace u @ ?evs \<and>
          attempts ?evs = 1 \<and> detector_passes ?evs = 0 \<and>
          now u + 200 \<le> now ?v \<and> now u - s < maxWaitMs"
        using False evsA iteration_backoff [OF Inl False] tryAcquire_keeps [of u r h]
          delay_now [of ?wa 200]
        by (simp add: delay_trace)
      then show ?thesis by blast
    next
      case True
      let ?wb = "snd (forceResetLockIfStale r h ?wa)"
      obtain evsD where evsD: "trace ?wb = trace ?wa @ evsD"
        "attempts evsD = 0" "detector_passes evsD = 1"
        using detector_events by blast
      show ?thesis
      proof (cases "fst (forceResetLockIfStale r h ?wa) = Inr False")
        case no_reset: True
        have "run (Suc 0) r h s u = Returned (Inr Noop) ?wb"
          using no_reset by (simp add: iteration_detector [OF Inl True])
        then have "Suc 0 \<le> 2 \<and> run (Suc 0) r h s u = Returned (Inr Noop) ?wb \<and>
            trace ?wb = trace u @ (evsA @ evsD) \<and> attempts (evsA @ evsD) \<le> 2 \<and>
            detector_passes (evsA @ evsD) \<le> 1"
          using evsA evsD by simp
        then show ?thesis by blast
      next
        case reset: False
        let ?v = "delay 200 ?wb"
        let ?evs = "evsA @ evsD @ [\<lparr>at = now ?wb, cmd = Delay 200, ok = True\<rparr>]"
        have it: "iteration r h s u = Running ?v"
          using reset by (simp add: iteration_detector [OF Inl True])
        have tr: "trace ?v = trace u @ ?evs"
          using evsA evsD by (simp add: delay_trace)
        have "0 < detector_passes ?evs"
          using evsA evsD by simp
        with after_pass it tr obtain release where
          rel: "fst (tryAcquire r h ?v) = Inr release"
          by blast
        let ?wc = "snd (tryAcquire r h ?v)"
        obtain evsC where evsC: "trace ?wc = trace ?v @ evsC"
          "attempts evsC = 1" "detector_passes evsC = 0"
          using tryAcquire_trace by blast
        have "run (Suc (Suc 0)) r h s u = Returned (Inr release) ?wc"
          by (simp add: it iteration_acquired [OF rel])
        then have "Suc (Suc 0) \<le> 2 \<and> run (Suc (Suc 0)) r h s u = Returned (Inr release) ?wc \<and>
            trace ?wc = trace u @ (?evs @ evsC) \<and> attempts (?evs @ evsC) \<le> 2 \<and>
            detector_passes (?evs @ evsC) \<le> 1"
          using evsA evsD evsC tr by simp
        then show ?thesis by blast
      qed
    qed
  qed
qed

text \<open>
  From a world in which the maximum wait ends within \<open>k\<close> backoffs, a call whose attempts
  after a detector pass succeed returns within \<open>k + 2\<close> iterations.
\<close>

lemma run_bounded:
  assumes "s + maxWaitMs - now u \<le> 200 * int k"
    and "\<forall>n v evs. run n r h s u = Running v \<longrightarrow> trace v = trace u @ evs \<longrightarrow>
      0 < detector_passes evs \<longrightarrow> (\<exists>release. fst (tryAcquire r h v) = Inr release)"
  shows "\<exists>m f w' evs. m \<le> k + 2 \<and> run m r h s u = Returned (Inr f) w' \<and>
    trace w' = trace u @ evs \<and> attempts evs \<le> k + 2 \<and> detector_passes evs \<le> 1"
  using assms
proof (induction k arbitrary: u)
  case 0
  have first: "\<forall>v evs. iteration r h s u = Running v \<longrightarrow> trace v = trace u @ evs \<longrightarrow>
      0 < detector_passes evs \<longrightarrow> (\<exists>release. fst (tryAcquire r h v) = Inr release)"
  proof (intro allI impI)
    fix v evs
    assume a: "iteration r h s u = Running v" "trace v = trace u @ evs" "0 < detector_passes evs"
    have "run (Suc 0) r h s u = Running v"
      using a(1) by simp
    with "0.prems"(2) a(2,3) show "\<exists>release. fst (tryAcquire r h v) = Inr release"
      by blast
  qed
  from iteration_cases [of r h s u, OF first]
  consider (finished) m f w' evs where "m \<le> 2" "run m r h s u = Returned (Inr f) w'"
      "trace w' = trace u @ evs" "attempts evs \<le> 2" "detector_passes evs \<le> 1"
    | (backoff) "now u - s < maxWaitMs"
    by blast
  then show ?case
  proof cases
    case finished
    then have "m \<le> 0 + 2 \<and> run m r h s u = Returned (Inr f) w' \<and>
        trace w' = trace u @ evs \<and> attempts evs \<le> 0 + 2 \<and> detector_passes evs \<le> 1"
      by simp
    then show ?thesis by blast
  next
    case backoff
    then show ?thesis
      using "0.prems"(1) by simp
  qed
next
  case (Suc k)
  have first: "\<forall>v evs. iteration r h s u = Running v \<longrightarrow> trace v = trace u @ evs \<longrightarrow>
      0 < detector_passes evs \<longrightarrow> (\<exists>release. fst (tryAcquire r h v) = Inr release)"
  proof (intro allI impI)
    fix v evs
    assume a: "iteration r h s u = Running v" "trace v = trace u @ evs" "0 < detector_passes evs"
    have "run (Suc 0) r h s u = Running v"
      using a(1) by simp
    with Suc.prems(2) a(2,3) show "\<exists>release. fst (tryAcquire r h v) = Inr release"
      by blast
  qed
  from iteration_cases [of r h s u, OF first]
  consider (finished) m f w' evs where "m \<le> 2" "run m r h s u = Returned (Inr f) w'"
      "trace w' = trace u @ evs" "attempts evs \<le> 2" "detector_passes evs \<le> 1"
    | (backoff) v evs where "iteration r h s u = Running v" "trace v = trace u @ evs"
      "attempts evs = 1" "detector_passes evs = 0" "now u + 200 \<le> now v"
    by blast
  then show ?case
  proof cases
    case finished
    then have "m \<le> Suc k + 2 \<and> run m r h s u = Returned (Inr f) w' \<and>
        trace w' = trace u @ evs \<and> attempts evs \<le> Suc k + 2 \<and> detector_passes evs \<le> 1"
      by simp
    then show ?thesis by blast
  next
    case backoff
    have bound: "s + maxWaitMs - now v \<le> 200 * int k"
      using Suc.prems(1) backoff(5) by simp
    have later: "\<forall>n v' evs'. run n r h s v = Running v' \<longrightarrow> trace v' = trace v @ evs' \<longrightarrow>
        0 < detector_passes evs' \<longrightarrow> (\<exists>release. fst (tryAcquire r h v') = Inr release)"
    proof (intro allI impI)
      fix n v' evs'
      assume a: "run n r h s v = Running v'" "trace v' = trace v @ evs'"
        "0 < detector_passes evs'"
      have "run (Suc n) r h s u = Running v'"
        using a(1) backoff(1) by simp
      moreover have "trace v' = trace u @ (evs @ evs')"
        using a(2) backoff(2) by simp
      moreover have "0 < detector_passes (evs @ evs')"
        using a(3) by simp
      ultimately show "\<exists>release. fst (tryAcquire r h v') = Inr release"
        using Suc.prems(2) by blast
    qed
    from Suc.IH [OF bound later]
    have "\<exists>m f w' evs'. m \<le> k + 2 \<and> run m r h s v = Returned (Inr f) w' \<and>
        trace w' = trace v @ evs' \<and> attempts evs' \<le> k + 2 \<and> detector_passes evs' \<le> 1" .
    then obtain m f w' evs' where ih: "m \<le> k + 2" "run m r h s v = Returned (Inr f) w'"
      "trace w' = trace v @ evs'" "attempts evs' \<le> k + 2" "detector_passes evs' \<le> 1"
      by blast
    have "Suc m \<le> Suc k + 2 \<and> run (Suc m) r h s u = Returned (Inr f) w' \<and>
        trace w' = trace u @ (evs @ evs') \<and> attempts (evs @ evs') \<le> Suc k + 2 \<and>
        detector_passes (evs @ evs') \<le> 1"
      using ih backoff by simp
    then show ?thesis by blast
  qed
qed

text \<open>The run at the end of an outage: a reclamation, then a successful attempt.\<close>

lemma after_outage_first:
  "iteration ''compile-foo'' ''compile-foo:hb'' (now after_outage) after_outage =
     Running second_attempt"
proof -
  let ?r = "''compile-foo''"
  let ?h = "''compile-foo:hb''"
  define w1 where "w1 = snd (tryAcquire ?r ?h after_outage)"
  have a1: "fst (tryAcquire ?r ?h after_outage) = Inl LockError"
    by (simp add: after_outage_def healthy_def tryAcquire_def store_defs)
  have e1: "w1 = after_outage\<lparr>lock_replies := sconst (Inr 7), now := 115000,
      latency := sconst 1,
      trace := [\<lparr>at = 100000, cmd = RedlockLock ?r 5000, ok = False\<rparr>]\<rparr>"
    unfolding w1_def
    by (simp add: after_outage_def healthy_def tryAcquire_def store_defs lockTTL_def)
  have late: "maxWaitMs \<le> now (snd (tryAcquire ?r ?h after_outage)) - now after_outage"
    using e1 unfolding w1_def by (simp add: maxWaitMs_def after_outage_def healthy_def)
  have a2: "fst (forceResetLockIfStale ?r ?h w1) = Inr True"
    unfolding e1 by (simp add: after_outage_def healthy_def detector_defs store_defs)
  show ?thesis
    using a2 by (simp add: iteration_detector [OF a1 late] second_attempt_def w1_def)
qed

lemma second_attempt_world:
  "trace second_attempt =
     [\<lparr>at = 100000, cmd = RedlockLock ''compile-foo'' 5000, ok = False\<rparr>,
      \<lparr>at = 115000, cmd = Pttl ''compile-foo'', ok = True\<rparr>,
      \<lparr>at = 115001, cmd = Delay 200, ok = True\<rparr>] \<and>
   shd (lock_replies second_attempt) = Inr 7 \<and>
   shd (set_replies second_attempt) = Inr () \<and>
   shd (pexpire_replies second_attempt) = Inr () \<and>
   next_timer second_attempt = 0"
  by (simp add: second_attempt_def after_outage_def healthy_def tryAcquire_def detector_defs
      store_defs delay_def lockTTL_def)

lemma second_attempt_acquires:
  "fst (tryAcquire ''compile-foo'' ''compile-foo:hb'' second_attempt) =
     Inr (Release 0 (Lock ''compile-foo'' 7) ''compile-foo:hb'')"
  using second_attempt_world by (simp add: tryAcquire_def store_defs setInterval_def)

section \<open>Acquisition: how long it may take\<close>

lemma tryAcquire_spinning:
  assumes "spinning w"
  shows "fst (tryAcquire r h w) = Inl LockError \<and> spinning (snd (tryAcquire r h w))"
  using assms by (simp add: spinning_def tryAcquire_def store_defs)

lemma detector_spinning:
  assumes "spinning w"
  shows "fst (forceResetLockIfStale r h w) = Inr True \<and>
    spinning (snd (forceResetLockIfStale r h w))"
  using assms by (simp add: spinning_def detector_defs store_defs)

lemma delay_spinning: "spinning w \<Longrightarrow> spinning (delay ms w)"
  by (simp add: spinning_def delay_def)

lemma acquireLoop_spins:
  assumes "acquireLoop r h s w = Some y"
  shows "\<not> spinning w"
  using assms
proof (induction rule: acquireLoop.raw_induct [rotated 1, consumes 1])
  case (1 loop r h s w y)
  show ?case
  proof
    assume inv: "spinning w"
    obtain wa where a: "tryAcquire r h w = (Inl LockError, wa)"
      using tryAcquire_spinning [OF inv, of r h] by (cases "tryAcquire r h w") simp
    have inva: "spinning wa"
      using tryAcquire_spinning [OF inv, of r h] a by simp
    obtain wb where b: "forceResetLockIfStale r h wa = (Inr True, wb)"
      using detector_spinning [OF inva, of r h] by (cases "forceResetLockIfStale r h wa") simp
    have invb: "spinning wb"
      using detector_spinning [OF inva, of r h] b by simp
    show False
    proof (cases "maxWaitMs \<le> now wa - s")
      case True
      then have "loop r h s (delay 200 wb) = Some y"
        using "1.hyps" a b by simp
      from "1.IH" [OF this] show False
        using delay_spinning [OF invb] by simp
    next
      case False
      then have "loop r h s (delay 200 wa) = Some y"
        using "1.hyps" a by simp
      from "1.IH" [OF this] show False
        using delay_spinning [OF inva] by simp
    qed
  qed
qed

text \<open>
  C1, as the code has it. The loop is left only by a successful attempt or by a detector pass
  that reports no reclamation. On a read-only replica every lock call is rejected and every
  detector pass finds the key absent and reports true, so the call never returns: one
  detector pass follows another, each after a further failed attempt.
\<close>

theorem getCompileLock_blocks_counterexample:
  "getCompileLock ''foo'' readonly_replica = None"
proof (cases "getCompileLock ''foo'' readonly_replica")
  case None
  then show ?thesis .
next
  case (Some y)
  then have "acquireLoop ''compile-foo'' ''compile-foo:hb'' (now readonly_replica) readonly_replica =
      Some y"
    by (simp add: getCompileLock_def)
  from acquireLoop_spins [OF this] show ?thesis
    by (simp add: spinning_def readonly_replica_def healthy_def)
qed

text \<open>
  C1, amended. Every call to \<^verbatim>\<open>getCompileLock(name)\<close> in which each acquire attempt made after
  a detector pass succeeds (so every call in which no pass reports a reclamation) returns a
  release function within a bounded number of iterations of the loop, at most 77, with a
  clock that does not run backwards; it makes at most 77 lock attempts and at most one
  detector pass before control returns.
\<close>

theorem getCompileLock_returns:
  assumes "\<And>n v. run n (''compile-'' @ name) (''compile-'' @ name @ '':hb'') (now w) w = Running v \<Longrightarrow>
      0 < detector_passes (events_since w v) \<Longrightarrow>
      \<exists>release. fst (tryAcquire (''compile-'' @ name) (''compile-'' @ name @ '':hb'') v) =
        Inr release"
  shows "\<exists>n release w'. n \<le> 77 \<and>
    run n (''compile-'' @ name) (''compile-'' @ name @ '':hb'') (now w) w =
      Returned (Inr release) w' \<and>
    getCompileLock name w = Some (Inr release, w') \<and>
    attempts (events_since w w') \<le> 77 \<and>
    detector_passes (events_since w w') \<le> 1"
proof -
  let ?r = "''compile-'' @ name"
  let ?h = "''compile-'' @ name @ '':hb''"
  have bound: "now w + maxWaitMs - now w \<le> 200 * int 75"
    by (simp add: maxWaitMs_def)
  have after_pass: "\<forall>n v evs. run n ?r ?h (now w) w = Running v \<longrightarrow> trace v = trace w @ evs \<longrightarrow>
      0 < detector_passes evs \<longrightarrow> (\<exists>release. fst (tryAcquire ?r ?h v) = Inr release)"
  proof (intro allI impI)
    fix n v evs
    assume a: "run n ?r ?h (now w) w = Running v" "trace v = trace w @ evs"
      "0 < detector_passes evs"
    have "0 < detector_passes (events_since w v)"
      using a(2,3) by simp
    with a(1) show "\<exists>release. fst (tryAcquire ?r ?h v) = Inr release"
      by (rule assms)
  qed
  from run_bounded [OF bound after_pass] obtain m f w' evs where
    m: "m \<le> 75 + 2" and r: "run m ?r ?h (now w) w = Returned (Inr f) w'" and
    t: "trace w' = trace w @ evs" and a: "attempts evs \<le> 75 + 2" and
    d: "detector_passes evs \<le> 1"
    by blast
  have "getCompileLock name w = Some (Inr f, w')"
    using run_acquireLoop [OF r] by (simp add: getCompileLock_def Let_def)
  then have "m \<le> 77 \<and> run m ?r ?h (now w) w = Returned (Inr f) w' \<and>
      getCompileLock name w = Some (Inr f, w') \<and>
      attempts (events_since w w') \<le> 77 \<and> detector_passes (events_since w w') \<le> 1"
    using m r t a d by simp
  then show ?thesis by blast
qed

theorem getCompileLock_returns_witness:
  "run 1 ''compile-foo'' ''compile-foo:hb'' (now after_outage) after_outage =
     Running second_attempt \<and>
   detector_passes (events_since after_outage second_attempt) = 1 \<and>
   fst (tryAcquire ''compile-foo'' ''compile-foo:hb'' second_attempt) =
     Inr (Release 0 (Lock ''compile-foo'' 7) ''compile-foo:hb'') \<and>
   (\<exists>n release w'. n \<le> 77 \<and>
      run n ''compile-foo'' ''compile-foo:hb'' (now after_outage) after_outage =
        Returned (Inr release) w' \<and>
      getCompileLock ''foo'' after_outage = Some (Inr release, w') \<and>
      attempts (events_since after_outage w') \<le> 77 \<and>
      detector_passes (events_since after_outage w') \<le> 1)"
proof -
  let ?r = "''compile-foo''"
  let ?h = "''compile-foo:hb''"
  have one: "run 1 ?r ?h (now after_outage) after_outage = Running second_attempt"
    by (simp add: after_outage_first)
  have none: "trace after_outage = []"
    by (simp add: after_outage_def healthy_def)
  have passes: "detector_passes (events_since after_outage second_attempt) = 1"
    using second_attempt_world by (simp add: events_since_def none)
  have "\<exists>n release w'. n \<le> 77 \<and>
      run n (''compile-'' @ ''foo'') (''compile-'' @ ''foo'' @ '':hb'') (now after_outage)
        after_outage = Returned (Inr release) w' \<and>
      getCompileLock ''foo'' after_outage = Some (Inr release, w') \<and>
      attempts (events_since after_outage w') \<le> 77 \<and>
      detector_passes (events_since after_outage w') \<le> 1"
  proof (rule getCompileLock_returns)
    fix n v
    assume r: "run n (''compile-'' @ ''foo'') (''compile-'' @ ''foo'' @ '':hb'')
        (now after_outage) after_outage = Running v"
      and p: "0 < detector_passes (events_since after_outage v)"
    have r': "run n ?r ?h (now after_outage) after_outage = Running v"
      using r by simp
    have "v = second_attempt"
    proof (cases n)
      case 0
      then show ?thesis
        using r' p by simp
    next
      case (Suc k)
      show ?thesis
      proof (cases k)
        case 0
        then show ?thesis
          using r' Suc by (simp add: after_outage_first)
      next
        case (Suc j)
        then show ?thesis
          using r' \<open>n = Suc k\<close>
          by (simp add: after_outage_first iteration_acquired [OF second_attempt_acquires])
      qed
    qed
    then show "\<exists>release. fst (tryAcquire (''compile-'' @ ''foo'') (''compile-'' @ ''foo'' @ '':hb'') v) =
        Inr release"
      by (simp add: second_attempt_acquires)
  qed
  then show ?thesis
    using one passes second_attempt_acquires by simp
qed

lemma String_115203: "String 115203 = ''115203''"
  by (simp add: String_def digits_of.simps)

text \<open>
  C2, evaluated on a run. The first attempt fails at the maximum wait, the detector finds the
  key absent and reports true, and the next attempt follows a \<open>Delay 200\<close> (issued at
  \<open>115001\<close>, the attempt at \<open>115202\<close>): the backoff is not skipped after a reclamation.
\<close>

theorem getCompileLock_reset_then_delay:
  "map_option fst (getCompileLock ''foo'' after_outage) =
     Some (Inr (Release 0 (Lock ''compile-foo'' 7) ''compile-foo:hb'')) \<and>
   map_option (trace \<circ> snd) (getCompileLock ''foo'' after_outage) =
     Some
       [\<lparr>at = 100000, cmd = RedlockLock ''compile-foo'' 5000, ok = False\<rparr>,
        \<lparr>at = 115000, cmd = Pttl ''compile-foo'', ok = True\<rparr>,
        \<lparr>at = 115001, cmd = Delay 200, ok = True\<rparr>,
        \<lparr>at = 115202, cmd = RedlockLock ''compile-foo'' 5000, ok = True\<rparr>,
        \<lparr>at = 115203, cmd = Set ''compile-foo:hb'' ''115203'', ok = True\<rparr>,
        \<lparr>at = 115204, cmd = Pexpire ''compile-foo:hb'' 10000, ok = True\<rparr>,
        \<lparr>at = 115205, cmd = SetInterval 0 3500, ok = True\<rparr>]"
proof -
  let ?r = "''compile-foo''"
  let ?h = "''compile-foo:hb''"
  define w1 where "w1 = snd (tryAcquire ?r ?h after_outage)"
  define w2 where "w2 = snd (forceResetLockIfStale ?r ?h w1)"
  define w3 where "w3 = delay 200 w2"
  have a1: "fst (tryAcquire ?r ?h after_outage) = Inl LockError"
    by (simp add: after_outage_def healthy_def tryAcquire_def store_defs)
  have e1: "w1 = after_outage\<lparr>lock_replies := sconst (Inr 7), now := 115000,
      latency := sconst 1,
      trace := [\<lparr>at = 100000, cmd = RedlockLock ?r 5000, ok = False\<rparr>]\<rparr>"
    unfolding w1_def
    by (simp add: after_outage_def healthy_def tryAcquire_def store_defs lockTTL_def)
  have late: "maxWaitMs \<le> now (snd (tryAcquire ?r ?h after_outage)) - now after_outage"
    using e1 unfolding w1_def by (simp add: maxWaitMs_def after_outage_def healthy_def)
  have a2: "fst (forceResetLockIfStale ?r ?h w1) = Inr True"
    unfolding e1 by (simp add: after_outage_def healthy_def detector_defs store_defs)
  have e2: "trace w2 = [\<lparr>at = 100000, cmd = RedlockLock ?r 5000, ok = False\<rparr>,
        \<lparr>at = 115000, cmd = Pttl ?r, ok = True\<rparr>] \<and> now w2 = 115001 \<and>
      latency w2 = sconst 1 \<and> lock_replies w2 = sconst (Inr 7) \<and>
      set_replies w2 = sconst (Inr ()) \<and> pexpire_replies w2 = sconst (Inr ()) \<and>
      next_timer w2 = 0"
    unfolding w2_def e1 by (simp add: after_outage_def healthy_def detector_defs store_defs)
  have a3: "fst (tryAcquire ?r ?h w3) = Inr (Release 0 (Lock ?r 7) ?h)"
    unfolding w3_def using e2 by (simp add: delay_def tryAcquire_def store_defs setInterval_def)
  have e3: "trace (snd (tryAcquire ?r ?h w3)) =
       [\<lparr>at = 100000, cmd = RedlockLock ?r 5000, ok = False\<rparr>,
        \<lparr>at = 115000, cmd = Pttl ?r, ok = True\<rparr>,
        \<lparr>at = 115001, cmd = Delay 200, ok = True\<rparr>,
        \<lparr>at = 115202, cmd = RedlockLock ?r 5000, ok = True\<rparr>,
        \<lparr>at = 115203, cmd = Set ?h ''115203'', ok = True\<rparr>,
        \<lparr>at = 115204, cmd = Pexpire ?h 10000, ok = True\<rparr>,
        \<lparr>at = 115205, cmd = SetInterval 0 3500, ok = True\<rparr>]"
    unfolding w3_def using e2
    by (simp add: delay_def tryAcquire_def store_defs setInterval_def lockTTL_def String_115203)
  have "acquireLoop ?r ?h (now after_outage) after_outage =
      acquireLoop ?r ?h (now after_outage) w3"
    using a2 by (simp add: acquireLoop_detector [OF a1 late] detector_outcome w1_def w2_def w3_def)
  also have "\<dots> = Some (Inr (Release 0 (Lock ?r 7) ?h), snd (tryAcquire ?r ?h w3))"
    by (rule acquireLoop_acquired [OF a3])
  finally show ?thesis
    by (simp add: getCompileLock_def Let_def e3)
qed

section \<open>Acquisition: what it returns\<close>

text \<open>
  C7. When an attempt fails at or beyond the maximum wait and the detector reports no
  reclamation, the loop ends there and returns the no-op release function, which returns
  normally and leaves the world as it is (no command, no timer); and no call of
  \<^verbatim>\<open>getCompileLock\<close> ever rejects.
\<close>

theorem getCompileLock_gives_up:
  assumes "fst (tryAcquire r h w) = Inl e"
    and "maxWaitMs \<le> now (snd (tryAcquire r h w)) - start"
    and "fst (forceResetLockIfStale r h (snd (tryAcquire r h w))) = Inr False"
  shows "acquireLoop r h start w =
      Some (Inr Noop, snd (forceResetLockIfStale r h (snd (tryAcquire r h w)))) \<and>
    run_release Noop v = (Inr (), v) \<and>
    getCompileLock name u \<noteq> Some (Inl err, u')"
proof -
  have "acquireLoop r h start w =
      Some (Inr Noop, snd (forceResetLockIfStale r h (snd (tryAcquire r h w))))"
    using assms(3) by (simp add: acquireLoop_detector [OF assms(1,2)] detector_outcome)
  moreover have "getCompileLock name u \<noteq> Some (Inl err, u')"
    using acquireLoop_never_throws [of "''compile-'' @ name" "''compile-'' @ name @ '':hb''"
        "now u" u "(Inl err, u')"]
    by (auto simp: getCompileLock_def)
  ultimately show ?thesis
    by simp
qed

theorem getCompileLock_gives_up_witness:
  "fst (tryAcquire ''compile-foo'' ''compile-foo:hb'' outage) = Inl LockError \<and>
   maxWaitMs \<le> now (snd (tryAcquire ''compile-foo'' ''compile-foo:hb'' outage)) - now outage \<and>
   fst (forceResetLockIfStale ''compile-foo'' ''compile-foo:hb''
     (snd (tryAcquire ''compile-foo'' ''compile-foo:hb'' outage))) = Inr False \<and>
   getCompileLock ''foo'' outage =
     Some (Inr Noop, snd (forceResetLockIfStale ''compile-foo'' ''compile-foo:hb''
       (snd (tryAcquire ''compile-foo'' ''compile-foo:hb'' outage)))) \<and>
   trace (snd (forceResetLockIfStale ''compile-foo'' ''compile-foo:hb''
       (snd (tryAcquire ''compile-foo'' ''compile-foo:hb'' outage)))) =
     [\<lparr>at = 100000, cmd = RedlockLock ''compile-foo'' 5000, ok = False\<rparr>,
      \<lparr>at = 115000, cmd = Pttl ''compile-foo'', ok = False\<rparr>] \<and>
   run_release Noop outage = (Inr (), outage) \<and>
   getCompileLock ''foo'' outage \<noteq> Some (Inl StoreError, outage)"
proof -
  have a: "tryAcquire ''compile-foo'' ''compile-foo:hb'' outage =
      (Inl LockError,
       outage\<lparr>lock_replies := sconst (Inl LockError), now := 115000, latency := sconst 0,
         trace := [\<lparr>at = 100000, cmd = RedlockLock ''compile-foo'' 5000, ok = False\<rparr>]\<rparr>)"
    by (simp add: outage_def unreachable_def tryAcquire_def store_defs lockTTL_def)
  have h1: "fst (tryAcquire ''compile-foo'' ''compile-foo:hb'' outage) = Inl LockError"
    by (simp add: a)
  have h2: "maxWaitMs \<le>
      now (snd (tryAcquire ''compile-foo'' ''compile-foo:hb'' outage)) - now outage"
    by (simp add: a maxWaitMs_def) (simp add: outage_def unreachable_def)
  have h3: "fst (forceResetLockIfStale ''compile-foo'' ''compile-foo:hb''
      (snd (tryAcquire ''compile-foo'' ''compile-foo:hb'' outage))) = Inr False"
    by (simp add: a) (simp add: outage_def unreachable_def detector_defs store_defs)
  have t: "trace (snd (forceResetLockIfStale ''compile-foo'' ''compile-foo:hb''
       (snd (tryAcquire ''compile-foo'' ''compile-foo:hb'' outage)))) =
     [\<lparr>at = 100000, cmd = RedlockLock ''compile-foo'' 5000, ok = False\<rparr>,
      \<lparr>at = 115000, cmd = Pttl ''compile-foo'', ok = False\<rparr>]"
    by (simp add: a) (simp add: outage_def unreachable_def detector_defs store_defs)
  show ?thesis
    using getCompileLock_gives_up [OF h1 h2 h3, where v = outage and name = "''foo''"
        and u = outage and err = StoreError and u' = outage] h1 h2 h3 t
    by (simp add: getCompileLock_def Let_def)
qed

lemma String_100001: "String 100001 = ''100001''"
  by (simp add: String_def digits_of.simps)

text \<open>
  C8. Whenever \<^verbatim>\<open>getCompileLock(name)\<close> returns the release function of an acquired lock, the
  last four commands of the run are, all successful: the lock call on \<open>compile-<name>\<close> with
  lease \<open>5000\<close>, the write of the time it is issued at into \<open>compile-<name>:hb\<close>, the expiry
  \<open>10000\<close> on that key, and \<^verbatim>\<open>setInterval\<close> with period \<open>3500\<close>; the timer is registered under
  the token the release function holds, and firing it runs the heartbeat tick. A tick, in any
  environment, returns normally; it extends the lease by \<open>5000\<close>, writes the time into the
  heartbeat key, sets its expiry to \<open>10000\<close>, and issues nothing more after a rejected call.
\<close>

theorem getCompileLock_acquires:
  assumes "getCompileLock name w = Some (Inr (Release token l hb), w')"
  shows "hb = ''compile-'' @ name @ '':hb'' \<and> lock_resource l = ''compile-'' @ name \<and>
    (\<exists>pre t1 t2 t3 t4. trace w' = trace w @ pre @
       [\<lparr>at = t1, cmd = RedlockLock (''compile-'' @ name) 5000, ok = True\<rparr>,
        \<lparr>at = t2, cmd = Set hb (String t2), ok = True\<rparr>,
        \<lparr>at = t3, cmd = Pexpire hb 10000, ok = True\<rparr>,
        \<lparr>at = t4, cmd = SetInterval token 3500, ok = True\<rparr>]) \<and>
    timers w' token = Some (Interval (HeartbeatTick l hb) 3500) \<and>
    fire token w' = snd (heartbeatTick l hb w') \<and>
    fst (heartbeatTick l hb v) = Inr () \<and>
    events_since v (snd (heartbeatTick l hb v)) =
     (let t1 = now v + int (shd (latency v));
          t2 = t1 + int (shd (stl (latency v)));
          e1 = \<lparr>at = now v, cmd = Extend l 5000, ok = (\<not> isl (shd (extend_replies v)))\<rparr>;
          e2 = \<lparr>at = t1, cmd = Set hb (String t1), ok = (\<not> isl (shd (set_replies v)))\<rparr>;
          e3 = \<lparr>at = t2, cmd = Pexpire hb 10000, ok = (\<not> isl (shd (pexpire_replies v)))\<rparr>
      in if isl (shd (extend_replies v)) then [e1]
         else if isl (shd (set_replies v)) then [e1, e2]
         else [e1, e2, e3])"
proof -
  let ?r = "''compile-'' @ name"
  let ?h = "''compile-'' @ name @ '':hb''"
  have "acquireLoop ?r ?h (now w) w = Some (Inr (Release token l hb), w')"
    using assms by (simp add: getCompileLock_def Let_def)
  from acquireLoop_release_origin [OF this] obtain w0 pre where
    pre: "trace w0 = trace w @ pre" and
    w0: "tryAcquire ?r ?h w0 = (Inr (Release token l hb), w')"
    by auto
  from tryAcquire_acquired [OF w0] obtain x t1 t2 t3 t4 where
    rel: "Release token l hb = Release (next_timer w0) (Lock ?r x) ?h" and
    tr: "trace w' = trace w0 @
       [\<lparr>at = t1, cmd = RedlockLock ?r 5000, ok = True\<rparr>,
        \<lparr>at = t2, cmd = Set ?h (String t2), ok = True\<rparr>,
        \<lparr>at = t3, cmd = Pexpire ?h 10000, ok = True\<rparr>,
        \<lparr>at = t4, cmd = SetInterval (next_timer w0) 3500, ok = True\<rparr>]" and
    tm: "timers w' (next_timer w0) = Some (Interval (HeartbeatTick (Lock ?r x) ?h) 3500)"
    by blast
  have 1: "hb = ?h" and 2: "lock_resource l = ?r"
    using rel by auto
  have 3: "\<exists>pre t1 t2 t3 t4. trace w' = trace w @ pre @
       [\<lparr>at = t1, cmd = RedlockLock ?r 5000, ok = True\<rparr>,
        \<lparr>at = t2, cmd = Set hb (String t2), ok = True\<rparr>,
        \<lparr>at = t3, cmd = Pexpire hb 10000, ok = True\<rparr>,
        \<lparr>at = t4, cmd = SetInterval token 3500, ok = True\<rparr>]"
    using rel tr pre by auto
  have 4: "timers w' token = Some (Interval (HeartbeatTick l hb) 3500)"
    using rel tm by auto
  have 5: "fire token w' = snd (heartbeatTick l hb w')"
    by (simp add: fire_def 4)
  show ?thesis
    using 1 2 3 4 5 heartbeatTick_swallows [of l hb v] by simp
qed

theorem getCompileLock_acquires_witness:
  "getCompileLock ''foo'' healthy =
     Some (Inr (Release 0 (Lock ''compile-foo'' 7) ''compile-foo:hb''),
       snd (tryAcquire ''compile-foo'' ''compile-foo:hb'' healthy)) \<and>
   trace (snd (tryAcquire ''compile-foo'' ''compile-foo:hb'' healthy)) =
     [\<lparr>at = 100000, cmd = RedlockLock ''compile-foo'' 5000, ok = True\<rparr>,
      \<lparr>at = 100001, cmd = Set ''compile-foo:hb'' ''100001'', ok = True\<rparr>,
      \<lparr>at = 100002, cmd = Pexpire ''compile-foo:hb'' 10000, ok = True\<rparr>,
      \<lparr>at = 100003, cmd = SetInterval 0 3500, ok = True\<rparr>] \<and>
   timers (snd (tryAcquire ''compile-foo'' ''compile-foo:hb'' healthy)) 0 =
     Some (Interval (HeartbeatTick (Lock ''compile-foo'' 7) ''compile-foo:hb'') 3500) \<and>
   fst (heartbeatTick (Lock ''compile-foo'' 7) ''compile-foo:hb'' unreachable) = Inr () \<and>
   events_since unreachable
     (snd (heartbeatTick (Lock ''compile-foo'' 7) ''compile-foo:hb'' unreachable)) =
     [\<lparr>at = 100000, cmd = Extend (Lock ''compile-foo'' 7) 5000, ok = False\<rparr>]"
proof -
  have a: "fst (tryAcquire ''compile-foo'' ''compile-foo:hb'' healthy) =
      Inr (Release 0 (Lock ''compile-foo'' 7) ''compile-foo:hb'')"
    by (simp add: healthy_def tryAcquire_def store_defs setInterval_def)
  have h: "getCompileLock ''foo'' healthy =
     Some (Inr (Release 0 (Lock ''compile-foo'' 7) ''compile-foo:hb''),
       snd (tryAcquire ''compile-foo'' ''compile-foo:hb'' healthy))"
    using acquireLoop_acquired [OF a, of "now healthy"]
    by (simp add: getCompileLock_def Let_def)
  have t: "trace (snd (tryAcquire ''compile-foo'' ''compile-foo:hb'' healthy)) =
     [\<lparr>at = 100000, cmd = RedlockLock ''compile-foo'' 5000, ok = True\<rparr>,
      \<lparr>at = 100001, cmd = Set ''compile-foo:hb'' ''100001'', ok = True\<rparr>,
      \<lparr>at = 100002, cmd = Pexpire ''compile-foo:hb'' 10000, ok = True\<rparr>,
      \<lparr>at = 100003, cmd = SetInterval 0 3500, ok = True\<rparr>]"
    by (simp add: healthy_def tryAcquire_def store_defs setInterval_def lockTTL_def
        String_100001)
  have u: "shd (extend_replies unreachable) = Inl LockError"
    by (simp add: unreachable_def)
  have n: "now unreachable = 100000"
    by (simp add: unreachable_def)
  show ?thesis
    using getCompileLock_acquires [OF h, of unreachable] h t
    by (simp add: u n)
qed

end
